theory Spec2Isabelle
  imports Main "HOL-Library.Signed_Division" "HOL-Library.Word"
begin

section \<open>Exact fractions over an integral type\<close>

text \<open>
  The repository holds two variants of the header \<^verbatim>\<open>fractions.hpp\<close>: the file
  \<^verbatim>\<open>include/projgeom/fractions.hpp\<close> (definitions with the suffix \<open>_hpp\<close>) and a
  second copy with the same header comment (the unnamed part 0 of the sources;
  definitions with the suffix \<open>_p0\<close>). The helper functions \<open>abs\<close>, \<open>gcd_recur\<close> and
  \<open>gcd\<close> are the same in both.

  The integral type \<open>Z\<close> is modelled by \<^typ>\<open>int\<close>: overflow of a machine type is
  outside the model. The operators \<^verbatim>\<open>/\<close> and \<^verbatim>\<open>%\<close> of C++ truncate towards zero;
  they are \<open>sdiv\<close> and \<open>smod\<close>. A division whose divisor the code has just checked to
  be non-zero is written with \<open>sdiv\<close> directly; where the code divides with no such check,
  the model returns \<open>None\<close> for the zero divisor.

  Where the order of reducing and multiplying decides the result, \<open>Z\<close> is a 32-bit
  unsigned type, modelled by \<^typ>\<open>32 word\<close> (definitions with the suffix \<open>_u32\<close>): its
  arithmetic wraps around, which C++ defines for unsigned types.
\<close>

subsection \<open>Integer helpers\<close>

text \<open>\<^verbatim>\<open>abs\<close> for a signed type: \<^verbatim>\<open>(a < T(0)) ? -a : a\<close>.\<close>

definition abs_Z :: "int \<Rightarrow> int" where
  "abs_Z a = (if a < 0 then - a else a)"

text \<open>\<^verbatim>\<open>gcd_recur\<close>: Euclid's algorithm on the truncating remainder.\<close>

function gcd_recur :: "int \<Rightarrow> int \<Rightarrow> int" where
  "gcd_recur m n = (if n = 0 then abs_Z m else gcd_recur n (m smod n))"
  by pat_completeness auto
termination
proof (relation "measure (\<lambda>(m, n). nat \<bar>n\<bar>)")
  show "wf (measure (\<lambda>(m, n). nat \<bar>n\<bar>))"
    by simp
next
  fix m n :: int
  assume "n \<noteq> 0"
  then have "\<bar>m smod n\<bar> < \<bar>n\<bar>"
    using smod_int_range [where a = m and b = n] by auto
  then show "((n, m smod n), (m, n)) \<in> measure (\<lambda>(m, n). nat \<bar>n\<bar>)"
    by simp
qed

declare gcd_recur.simps [simp del]

text \<open>\<^verbatim>\<open>gcd\<close>: the first argument zero is answered at once.\<close>

definition gcd_Z :: "int \<Rightarrow> int \<Rightarrow> int" where
  "gcd_Z m n = (if m = 0 then abs_Z n else gcd_recur m n)"

subsection \<open>The data model\<close>

text \<open>\<^verbatim>\<open>struct Fraction { Z _num; Z _den; }\<close>, read through \<^verbatim>\<open>num()\<close> and \<^verbatim>\<open>den()\<close>.\<close>

record fraction =
  num :: int
  den :: int

text \<open>The one-argument constructor and the default constructor store the pair as it is.\<close>

definition Fraction1 :: "int \<Rightarrow> fraction" where
  "Fraction1 n = \<lparr>num = n, den = 1\<rparr>"

definition Fraction0 :: fraction where
  "Fraction0 = \<lparr>num = 0, den = 1\<rparr>"

text \<open>Unary minus is the same in both variants: the numerator changes sign.\<close>

definition neg :: "fraction \<Rightarrow> fraction" where
  "neg a = a\<lparr>num := - num a\<rparr>"

subsection \<open>The second variant (unnamed part 0)\<close>

text \<open>\<^verbatim>\<open>normalize\<close>: the sign moves to the numerator first, then the pair is reduced.\<close>

definition normalize_p0 :: "fraction \<Rightarrow> fraction" where
  "normalize_p0 f =
     (let f1 = (if den f < 0 then \<lparr>num = - num f, den = - den f\<rparr> else f);
          common = gcd_Z (num f1) (den f1)
      in if common = 1 \<or> common = 0 then f1
         else \<lparr>num = num f1 sdiv common, den = den f1 sdiv common\<rparr>)"

definition Fraction_p0 :: "int \<Rightarrow> int \<Rightarrow> fraction" where
  "Fraction_p0 n d = normalize_p0 \<lparr>num = n, den = d\<rparr>"

text \<open>
  \<^verbatim>\<open>operator==\<close> and \<^verbatim>\<open>operator<\<close>. The test \<^verbatim>\<open>this == &rhs\<close> of the equality is
  left out: the same object has the same two fields, and the next branch answers true.
\<close>

definition eq_p0 :: "fraction \<Rightarrow> fraction \<Rightarrow> bool" where
  "eq_p0 a b =
     (if den a = den b then num a = num b
      else let common = gcd_Z (den a) (den b)
           in if common = 0 then den b * num a = den a * num b
              else let l = den a sdiv common; r = den b sdiv common
                   in r * num a = l * num b)"

definition lt_p0 :: "fraction \<Rightarrow> fraction \<Rightarrow> bool" where
  "lt_p0 a b =
     (if den a = den b then num a < num b
      else let common = gcd_Z (den a) (den b)
           in if common = 0 then den b * num a < den a * num b
              else let l = den a sdiv common; r = den b sdiv common
                   in r * num a < l * num b)"

definition ne_p0 :: "fraction \<Rightarrow> fraction \<Rightarrow> bool" where
  "ne_p0 a b = (\<not> eq_p0 a b)"

definition gt_p0 :: "fraction \<Rightarrow> fraction \<Rightarrow> bool" where
  "gt_p0 a b = lt_p0 b a"

definition ge_p0 :: "fraction \<Rightarrow> fraction \<Rightarrow> bool" where
  "ge_p0 a b = (\<not> lt_p0 a b)"

definition le_p0 :: "fraction \<Rightarrow> fraction \<Rightarrow> bool" where
  "le_p0 a b = (\<not> lt_p0 b a)"

text \<open>\<^verbatim>\<open>reciprocal\<close>: swap, then restore the sign of the denominator.\<close>

definition reciprocal_p0 :: "fraction \<Rightarrow> fraction" where
  "reciprocal_p0 a =
     (let s = \<lparr>num = den a, den = num a\<rparr>
      in if den s < 0 then \<lparr>num = - num s, den = - den s\<rparr> else s)"

text \<open>\<^verbatim>\<open>operator*=\<close> and \<^verbatim>\<open>operator*\<close> on two fractions, and on a fraction and an integer.\<close>

definition mul_assign_p0 :: "fraction \<Rightarrow> fraction \<Rightarrow> fraction" where
  "mul_assign_p0 a b =
     (let f1 = Fraction_p0 (num a) (den b);
          f2 = Fraction_p0 (num b) (den a)
      in \<lparr>num = num f1 * num f2, den = den f1 * den f2\<rparr>)"

definition mul_p0 :: "fraction \<Rightarrow> fraction \<Rightarrow> fraction" where
  "mul_p0 a b = mul_assign_p0 a b"

definition mul_assign_int_p0 :: "fraction \<Rightarrow> int \<Rightarrow> fraction" where
  "mul_assign_int_p0 a i =
     (let f2 = Fraction_p0 i (den a)
      in \<lparr>num = num a * num f2, den = den f2\<rparr>)"

text \<open>\<^verbatim>\<open>operator/=\<close> and \<^verbatim>\<open>operator/\<close>.\<close>

definition div_assign_p0 :: "fraction \<Rightarrow> fraction \<Rightarrow> fraction" where
  "div_assign_p0 a b =
     (let f1 = Fraction_p0 (num a) (num b);
          f2 = Fraction_p0 (den b) (den a)
      in \<lparr>num = num f1 * num f2, den = den f1 * den f2\<rparr>)"

definition div_p0 :: "fraction \<Rightarrow> fraction \<Rightarrow> fraction" where
  "div_p0 a b = div_assign_p0 a b"

definition div_assign_int_p0 :: "fraction \<Rightarrow> int \<Rightarrow> fraction" where
  "div_assign_int_p0 a i =
     (let f1 = Fraction_p0 (num a) i
      in \<lparr>num = num f1, den = den a * den f1\<rparr>)"

text \<open>\<^verbatim>\<open>operator/(const Z& lhs, Fraction rhs)\<close>.\<close>

definition int_div_p0 :: "int \<Rightarrow> fraction \<Rightarrow> fraction" where
  "int_div_p0 i b = mul_assign_int_p0 (reciprocal_p0 b) i"

text \<open>
  \<^verbatim>\<open>operator+\<close>: \<open>add_args_p0\<close> is the pair \<open>(n, d)\<close> that the operator hands to the
  two-argument constructor, \<open>add_p0\<close> the fraction it returns.
\<close>

definition add_args_p0 :: "fraction \<Rightarrow> fraction \<Rightarrow> int \<times> int" where
  "add_args_p0 a b =
     (if den a = den b then (num a + num b, den a)
      else let common = gcd_Z (den a) (den b)
           in if common = 0 then (den b * num a + den a * num b, 0)
              else let l = den a sdiv common; r = den b sdiv common
                   in (r * num a + l * num b, den a * r))"

definition add_p0 :: "fraction \<Rightarrow> fraction \<Rightarrow> fraction" where
  "add_p0 a b = (case add_args_p0 a b of (n, d) \<Rightarrow> Fraction_p0 n d)"

definition sub_p0 :: "fraction \<Rightarrow> fraction \<Rightarrow> fraction" where
  "sub_p0 a b = add_p0 a (neg b)"

text \<open>\<^verbatim>\<open>operator+=\<close> and \<^verbatim>\<open>operator-=\<close> on two fractions.\<close>

definition add_assign_p0 :: "fraction \<Rightarrow> fraction \<Rightarrow> fraction" where
  "add_assign_p0 a b =
     (if den a = den b then normalize_p0 (a\<lparr>num := num a + num b\<rparr>)
      else let common = gcd_Z (den a) (den b)
           in if common = 0
              then let n = den b * num a + den a * num b
                   in \<lparr>num = (if n > 0 then 1 else if n < 0 then - 1 else 0), den = 0\<rparr>
              else let l = den a sdiv common; r = den b sdiv common
                   in normalize_p0 \<lparr>num = num a * r + l * num b, den = den a * r\<rparr>)"

definition sub_assign_p0 :: "fraction \<Rightarrow> fraction \<Rightarrow> fraction" where
  "sub_assign_p0 a b = sub_p0 a b"

text \<open>Adding and subtracting an integer.\<close>

definition add_assign_int_p0 :: "fraction \<Rightarrow> int \<Rightarrow> fraction" where
  "add_assign_int_p0 a i =
     (if i = 0 then a
      else if den a = 1 then a\<lparr>num := num a + i\<rparr>
      else normalize_p0 (a\<lparr>num := num a + den a * i\<rparr>))"

definition add_int_p0 :: "fraction \<Rightarrow> int \<Rightarrow> fraction" where
  "add_int_p0 a i = add_assign_int_p0 a i"

definition sub_int_p0 :: "fraction \<Rightarrow> int \<Rightarrow> fraction" where
  "sub_int_p0 a i = add_int_p0 a (- i)"

definition sub_assign_int_p0 :: "fraction \<Rightarrow> int \<Rightarrow> fraction" where
  "sub_assign_int_p0 a i = add_assign_int_p0 a (- i)"

text \<open>\<^verbatim>\<open>operator-(const Z& c, const Fraction<Z>& frac)\<close>.\<close>

definition int_sub_p0 :: "int \<Rightarrow> fraction \<Rightarrow> fraction" where
  "int_sub_p0 c b = add_assign_int_p0 (neg b) c"

subsection \<open>The variant of include/projgeom/fractions.hpp\<close>

text \<open>\<^verbatim>\<open>normalize\<close>: the gcd is taken first, and the sign is looked at after the return.\<close>

definition normalize_hpp :: "fraction \<Rightarrow> fraction" where
  "normalize_hpp f =
     (let common = gcd_Z (num f) (den f)
      in if common = 1 \<or> common = 0 then f
         else let common' = (if den f < 0 then - common else common)
              in \<lparr>num = num f sdiv common', den = den f sdiv common'\<rparr>)"

definition Fraction_hpp :: "int \<Rightarrow> int \<Rightarrow> fraction" where
  "Fraction_hpp n d = normalize_hpp \<lparr>num = n, den = d\<rparr>"

text \<open>The comparisons of two fractions.\<close>

definition eq_hpp :: "fraction \<Rightarrow> fraction \<Rightarrow> bool" where
  "eq_hpp a b =
     (if den a = den b then num a = num b
      else num a * den b = den a * num b)"

definition lt_hpp :: "fraction \<Rightarrow> fraction \<Rightarrow> bool" where
  "lt_hpp a b =
     (if den a = den b then num a < num b
      else num a * den b < den a * num b)"

definition gt_hpp :: "fraction \<Rightarrow> fraction \<Rightarrow> bool" where
  "gt_hpp a b = (\<not> lt_hpp b a)"

text \<open>\<^verbatim>\<open>reciprocal\<close> is the swap alone.\<close>

definition reciprocal_hpp :: "fraction \<Rightarrow> fraction" where
  "reciprocal_hpp a = \<lparr>num = den a, den = num a\<rparr>"

text \<open>\<^verbatim>\<open>operator*\<close> and \<^verbatim>\<open>operator/\<close> on two fractions.\<close>

definition mul_hpp :: "fraction \<Rightarrow> fraction \<Rightarrow> fraction" where
  "mul_hpp a b = Fraction_hpp (num a * num b) (den a * den b)"

definition div_hpp :: "fraction \<Rightarrow> fraction \<Rightarrow> fraction" where
  "div_hpp a b = mul_hpp a (reciprocal_hpp b)"

text \<open>
  \<^verbatim>\<open>operator*=(const Z& i)\<close> and \<^verbatim>\<open>operator/=(const Z& i)\<close>: the branch for
  \<open>common = 0\<close> is commented out in the source, so the \<^verbatim>\<open>else\<close> branch divides by
  \<open>common\<close> whatever it is. \<open>None\<close> is the division by zero.
\<close>

definition mul_assign_int_hpp :: "fraction \<Rightarrow> int \<Rightarrow> fraction option" where
  "mul_assign_int_hpp a i =
     (let common = gcd_Z i (den a)
      in if common = 1 then Some (a\<lparr>num := num a * i\<rparr>)
         else if common = 0 then None
         else Some \<lparr>num = num a * (i sdiv common), den = den a sdiv common\<rparr>)"

definition div_assign_int_hpp :: "fraction \<Rightarrow> int \<Rightarrow> fraction option" where
  "div_assign_int_hpp a i =
     (let common = gcd_Z (num a) i
      in if common = 1 then Some (a\<lparr>den := den a * i\<rparr>)
         else if common = 0 then None
         else Some \<lparr>num = num a sdiv common, den = den a * (i sdiv common)\<rparr>)"

subsection \<open>Both variants over a 32-bit unsigned type\<close>

text \<open>
  The same functions with \<open>Z\<close> a 32-bit unsigned type. \<^verbatim>\<open>abs\<close> returns its argument
  for an unsigned type, \<^verbatim>\<open>/\<close> and \<^verbatim>\<open>%\<close> are the unsigned \<open>div\<close> and \<open>mod\<close>, and
  \<^verbatim>\<open>+\<close>, \<^verbatim>\<open>*\<close> and unary \<^verbatim>\<open>-\<close> wrap around.
\<close>

type_synonym u32 = "32 word"

record fraction_u32 =
  num_u32 :: u32
  den_u32 :: u32

definition abs_u32 :: "u32 \<Rightarrow> u32" where
  "abs_u32 a = a"

function gcd_recur_u32 :: "u32 \<Rightarrow> u32 \<Rightarrow> u32" where
  "gcd_recur_u32 m n = (if n = 0 then abs_u32 m else gcd_recur_u32 n (m mod n))"
  by pat_completeness auto
termination
proof (relation "measure (\<lambda>(m, n). unat n)")
  show "wf (measure (\<lambda>(m, n). unat n))"
    by simp
next
  fix m n :: u32
  assume "n \<noteq> 0"
  then have "m mod n < n"
    by (simp add: word_mod_less_divisor word_neq_0_conv)
  then show "((n, m mod n), (m, n)) \<in> measure (\<lambda>(m, n). unat n)"
    by (simp add: word_less_nat_alt)
qed

declare gcd_recur_u32.simps [simp del]

definition gcd_u32 :: "u32 \<Rightarrow> u32 \<Rightarrow> u32" where
  "gcd_u32 m n = (if m = 0 then abs_u32 n else gcd_recur_u32 m n)"

text \<open>The second variant: \<open>normalize\<close>, the constructor, \<^verbatim>\<open>operator*=\<close> and \<^verbatim>\<open>operator+\<close>.\<close>

definition normalize_p0_u32 :: "fraction_u32 \<Rightarrow> fraction_u32" where
  "normalize_p0_u32 f =
     (let f1 = (if den_u32 f < 0 then \<lparr>num_u32 = - num_u32 f, den_u32 = - den_u32 f\<rparr> else f);
          common = gcd_u32 (num_u32 f1) (den_u32 f1)
      in if common = 1 \<or> common = 0 then f1
         else \<lparr>num_u32 = num_u32 f1 div common, den_u32 = den_u32 f1 div common\<rparr>)"

definition Fraction_p0_u32 :: "u32 \<Rightarrow> u32 \<Rightarrow> fraction_u32" where
  "Fraction_p0_u32 n d = normalize_p0_u32 \<lparr>num_u32 = n, den_u32 = d\<rparr>"

definition mul_assign_p0_u32 :: "fraction_u32 \<Rightarrow> fraction_u32 \<Rightarrow> fraction_u32" where
  "mul_assign_p0_u32 a b =
     (let f1 = Fraction_p0_u32 (num_u32 a) (den_u32 b);
          f2 = Fraction_p0_u32 (num_u32 b) (den_u32 a)
      in \<lparr>num_u32 = num_u32 f1 * num_u32 f2, den_u32 = den_u32 f1 * den_u32 f2\<rparr>)"

definition mul_p0_u32 :: "fraction_u32 \<Rightarrow> fraction_u32 \<Rightarrow> fraction_u32" where
  "mul_p0_u32 a b = mul_assign_p0_u32 a b"

definition add_p0_u32 :: "fraction_u32 \<Rightarrow> fraction_u32 \<Rightarrow> fraction_u32" where
  "add_p0_u32 a b =
     (if den_u32 a = den_u32 b then Fraction_p0_u32 (num_u32 a + num_u32 b) (den_u32 a)
      else let common = gcd_u32 (den_u32 a) (den_u32 b)
           in if common = 0
              then Fraction_p0_u32 (den_u32 b * num_u32 a + den_u32 a * num_u32 b) 0
              else let l = den_u32 a div common; r = den_u32 b div common
                   in Fraction_p0_u32 (r * num_u32 a + l * num_u32 b) (den_u32 a * r))"

text \<open>The variant of \<^verbatim>\<open>fractions.hpp\<close>: \<open>normalize\<close>, the constructor, \<^verbatim>\<open>operator*\<close> and \<^verbatim>\<open>operator+\<close>.\<close>

definition normalize_hpp_u32 :: "fraction_u32 \<Rightarrow> fraction_u32" where
  "normalize_hpp_u32 f =
     (let common = gcd_u32 (num_u32 f) (den_u32 f)
      in if common = 1 \<or> common = 0 then f
         else let common' = (if den_u32 f < 0 then - common else common)
              in \<lparr>num_u32 = num_u32 f div common', den_u32 = den_u32 f div common'\<rparr>)"

definition Fraction_hpp_u32 :: "u32 \<Rightarrow> u32 \<Rightarrow> fraction_u32" where
  "Fraction_hpp_u32 n d = normalize_hpp_u32 \<lparr>num_u32 = n, den_u32 = d\<rparr>"

definition mul_hpp_u32 :: "fraction_u32 \<Rightarrow> fraction_u32 \<Rightarrow> fraction_u32" where
  "mul_hpp_u32 a b = Fraction_hpp_u32 (num_u32 a * num_u32 b) (den_u32 a * den_u32 b)"

definition add_hpp_u32 :: "fraction_u32 \<Rightarrow> fraction_u32 \<Rightarrow> fraction_u32" where
  "add_hpp_u32 a b =
     (if den_u32 a = den_u32 b then Fraction_hpp_u32 (num_u32 a + num_u32 b) (den_u32 a)
      else Fraction_hpp_u32 (den_u32 b * num_u32 a + den_u32 a * num_u32 b)
             (den_u32 a * den_u32 b))"

subsection \<open>The canonical form\<close>

text \<open>
  The invariant of the data model: the denominator is not negative, and the gcd of
  \<open>|num|\<close> and \<open>den\<close> is 0 or 1. With a zero denominator this leaves the numerators
  -1, 0 and 1.
\<close>

definition canonical :: "fraction \<Rightarrow> bool" where
  "canonical f =
     (0 \<le> den f \<and> (gcd_Z (abs_Z (num f)) (den f) = 0 \<or> gcd_Z (abs_Z (num f)) (den f) = 1))"

text \<open>
  The fractions a client of the second variant can hold: what its constructors return, and
  what its operators return on such fractions and arbitrary integers. The binary
  operators on a fraction and an integer return what the compound forms return.
\<close>

inductive reachable_p0 :: "fraction \<Rightarrow> bool" where
  ctor2: "reachable_p0 (Fraction_p0 n d)"
| ctor1: "reachable_p0 (Fraction1 n)"
| ctor0: "reachable_p0 Fraction0"
| neg: "reachable_p0 a \<Longrightarrow> reachable_p0 (neg a)"
| reciprocal: "reachable_p0 a \<Longrightarrow> reachable_p0 (reciprocal_p0 a)"
| add: "reachable_p0 a \<Longrightarrow> reachable_p0 b \<Longrightarrow> reachable_p0 (add_p0 a b)"
| sub: "reachable_p0 a \<Longrightarrow> reachable_p0 b \<Longrightarrow> reachable_p0 (sub_p0 a b)"
| mul: "reachable_p0 a \<Longrightarrow> reachable_p0 b \<Longrightarrow> reachable_p0 (mul_p0 a b)"
| div: "reachable_p0 a \<Longrightarrow> reachable_p0 b \<Longrightarrow> reachable_p0 (div_p0 a b)"
| add_assign: "reachable_p0 a \<Longrightarrow> reachable_p0 b \<Longrightarrow> reachable_p0 (add_assign_p0 a b)"
| sub_assign: "reachable_p0 a \<Longrightarrow> reachable_p0 b \<Longrightarrow> reachable_p0 (sub_assign_p0 a b)"
| mul_assign: "reachable_p0 a \<Longrightarrow> reachable_p0 b \<Longrightarrow> reachable_p0 (mul_assign_p0 a b)"
| div_assign: "reachable_p0 a \<Longrightarrow> reachable_p0 b \<Longrightarrow> reachable_p0 (div_assign_p0 a b)"
| add_int: "reachable_p0 a \<Longrightarrow> reachable_p0 (add_int_p0 a i)"
| sub_int: "reachable_p0 a \<Longrightarrow> reachable_p0 (sub_int_p0 a i)"
| int_sub: "reachable_p0 a \<Longrightarrow> reachable_p0 (int_sub_p0 i a)"
| add_assign_int: "reachable_p0 a \<Longrightarrow> reachable_p0 (add_assign_int_p0 a i)"
| sub_assign_int: "reachable_p0 a \<Longrightarrow> reachable_p0 (sub_assign_int_p0 a i)"
| mul_assign_int: "reachable_p0 a \<Longrightarrow> reachable_p0 (mul_assign_int_p0 a i)"
| div_assign_int: "reachable_p0 a \<Longrightarrow> reachable_p0 (div_assign_int_p0 a i)"
| int_div: "reachable_p0 a \<Longrightarrow> reachable_p0 (int_div_p0 i a)"

subsection \<open>The helpers compute the greatest common divisor\<close>

lemma abs_Z_abs: "abs_Z a = \<bar>a\<bar>"
  by (simp add: abs_Z_def)

lemma gcd_smod_step: "gcd n (m smod n) = gcd m (n::int)"
proof -
  have "gcd n (m smod n) = gcd \<bar>n\<bar> (\<bar>m\<bar> mod \<bar>n\<bar>)"
    by (cases "m = 0") (simp_all add: smod_int_alt_def sgn_if)
  also have "\<dots> = gcd \<bar>n\<bar> \<bar>m\<bar>"
    by (metis gcd_red_int gcd.commute)
  also have "\<dots> = gcd m n"
    by (simp add: gcd.commute)
  finally show ?thesis .
qed

lemma gcd_recur_gcd: "gcd_recur m n = gcd m n"
proof (induction m n rule: gcd_recur.induct)
  case (1 m n)
  show ?case
  proof (cases "n = 0")
    case True
    then have "gcd_recur m n = abs_Z m"
      by (subst gcd_recur.simps) simp
    with True show ?thesis
      by (simp add: abs_Z_abs)
  next
    case False
    then have "gcd_recur m n = gcd_recur n (m smod n)"
      by (subst gcd_recur.simps) simp
    with False "1" show ?thesis
      by (simp add: gcd_smod_step)
  qed
qed

lemma gcd_Z_gcd: "gcd_Z m n = gcd m n"
  by (simp add: gcd_Z_def gcd_recur_gcd abs_Z_abs)

lemma gcd_recur_zero: "gcd_recur m 0 = abs_Z m"
  by (subst gcd_recur.simps) simp

lemma gcd_recur_step: "n \<noteq> 0 \<Longrightarrow> gcd_recur m n = gcd_recur n (m smod n)"
  by (subst gcd_recur.simps) simp

lemma sdiv_dvd_div: "c dvd x \<Longrightarrow> x sdiv c = x div (c::int)"
  by (simp add: signed_divide_int_eq_divide_int)

lemma sdiv_abs_self: "n sdiv \<bar>n\<bar> = sgn (n::int)"
  by (simp add: signed_divide_int_def sgn_if)

text \<open>
  C7: for all integers \<open>m\<close> and \<open>n\<close>, negative ones too, \<open>gcd\<close> returns the non-negative
  greatest common divisor: it divides both, and every common divisor divides it.
  \<open>gcd(0, n) = abs(n)\<close> and \<open>gcd(0, 0) = 0\<close>. For \<open>m \<noteq> 0\<close> it is \<open>gcd_recur\<close>, which steps
  from \<open>(m, n)\<close> to \<open>(n, m % n)\<close> while the second argument is not zero and then returns
  the absolute value of the first.
\<close>

theorem gcd_contract:
  "gcd_Z m n = gcd m n \<and> 0 \<le> gcd_Z m n
   \<and> gcd_Z m n dvd m \<and> gcd_Z m n dvd n
   \<and> (\<forall>d. d dvd m \<and> d dvd n \<longrightarrow> d dvd gcd_Z m n)
   \<and> gcd_Z 0 n = abs_Z n \<and> abs_Z n = \<bar>n\<bar> \<and> gcd_Z 0 0 = 0
   \<and> (m \<noteq> 0 \<longrightarrow> gcd_Z m n = gcd_recur m n)
   \<and> gcd_recur m 0 = abs_Z m
   \<and> (n \<noteq> 0 \<longrightarrow> gcd_recur m n = gcd_recur n (m smod n))"
proof -
  have "gcd_Z 0 n = abs_Z n" "gcd_Z 0 0 = 0" "m \<noteq> 0 \<longrightarrow> gcd_Z m n = gcd_recur m n"
    by (simp_all add: gcd_Z_def abs_Z_def)
  moreover have "gcd_Z m n = gcd m n" "0 \<le> gcd_Z m n" "gcd_Z m n dvd m" "gcd_Z m n dvd n"
    "\<forall>d. d dvd m \<and> d dvd n \<longrightarrow> d dvd gcd_Z m n"
    by (simp_all add: gcd_Z_gcd)
  ultimately show ?thesis
    using gcd_recur_zero [of m] gcd_recur_step [of n m] by (simp add: abs_Z_abs)
qed

theorem gcd_contract_witness:
  "(- 12 :: int) \<noteq> 0 \<and> (18 :: int) \<noteq> 0 \<and> gcd_Z (- 12) 18 = 6
   \<and> gcd_Z (- 12) 18 = gcd_recur (- 12) 18
   \<and> gcd_recur (- 12) 18 = gcd_recur 18 (- 12 smod 18)
   \<and> (3 :: int) dvd - 12 \<and> (3 :: int) dvd 18 \<and> 3 dvd gcd_Z (- 12) 18"
proof -
  have "gcd (12 :: int) 18 = 6"
    by code_simp
  then show ?thesis
    using gcd_contract [of "- 12" 18] by simp
qed

subsection \<open>What the two-argument constructor returns\<close>

text \<open>
  C9: for every integer \<open>n\<close>, \<open>Fraction(n, 0)\<close> has denominator 0 and the sign of \<open>n\<close>
  (one of -1, 0, 1) as its numerator, in both variants; \<open>gcd(n, 0)\<close> is \<open>|n|\<close>.
\<close>

theorem zero_denominator_sign:
  "gcd_Z n 0 = \<bar>n\<bar>
   \<and> Fraction_p0 n 0 = \<lparr>num = sgn n, den = 0\<rparr>
   \<and> Fraction_hpp n 0 = \<lparr>num = sgn n, den = 0\<rparr>
   \<and> sgn n \<in> {- 1, 0, 1}"
  by (simp add: Fraction_p0_def normalize_p0_def Fraction_hpp_def normalize_hpp_def
      gcd_Z_gcd sdiv_abs_self Let_def) (auto simp: sgn_if)

subsection \<open>The second variant normalises to the canonical form\<close>

lemma canonical_iff:
  "canonical f \<longleftrightarrow>
     (0 < den f \<and> coprime (num f) (den f)) \<or> (den f = 0 \<and> (num f = - 1 \<or> num f = 0 \<or> num f = 1))"
proof (cases "den f = 0")
  case True
  then show ?thesis
    by (auto simp: canonical_def gcd_Z_gcd abs_Z_abs)
next
  case False
  then show ?thesis
    by (auto simp: canonical_def gcd_Z_gcd abs_Z_abs coprime_iff_gcd_eq_1)
qed

lemma Fraction_p0_zero: "Fraction_p0 n 0 = \<lparr>num = sgn n, den = 0\<rparr>"
  by (simp add: Fraction_p0_def normalize_p0_def gcd_Z_gcd sdiv_abs_self Let_def)
     (auto simp: sgn_if)

lemma Fraction_p0_pos:
  "0 < d \<Longrightarrow> Fraction_p0 n d = \<lparr>num = n div gcd n d, den = d div gcd n d\<rparr>"
  by (simp add: Fraction_p0_def normalize_p0_def gcd_Z_gcd sdiv_dvd_div Let_def)

lemma Fraction_p0_neg_both: "d \<noteq> 0 \<Longrightarrow> Fraction_p0 (- n) (- d) = Fraction_p0 n d"
  by (simp add: Fraction_p0_def normalize_p0_def gcd_Z_gcd Let_def)

lemma den_div_gcd_pos:
  assumes "0 < (d::int)"
  shows "0 < d div gcd n d"
proof -
  have "0 < gcd n d"
    using assms by (simp add: gcd_pos_int)
  moreover have "gcd n d \<le> d"
    using assms by (simp add: gcd_le2_int)
  ultimately show ?thesis
    using assms by (simp add: pos_imp_zdiv_pos_iff)
qed

lemma canonical_pos_div:
  assumes "0 < d"
  shows "canonical \<lparr>num = n div gcd n d, den = d div gcd n d\<rparr>"
proof -
  have "coprime (n div gcd n d) (d div gcd n d)"
    using assms by (simp add: div_gcd_coprime)
  with assms show ?thesis
    by (simp add: canonical_iff den_div_gcd_pos)
qed

lemma canonical_Fraction_p0: "canonical (Fraction_p0 n d)"
proof -
  consider "d = 0" | "0 < d" | "d < 0"
    by linarith
  then show ?thesis
  proof cases
    case 1
    then show ?thesis
      by (auto simp: Fraction_p0_zero canonical_iff sgn_if)
  next
    case 2
    then show ?thesis
      by (simp add: Fraction_p0_pos canonical_pos_div)
  next
    case 3
    then have "Fraction_p0 n d = Fraction_p0 (- n) (- d)"
      by (simp add: Fraction_p0_neg_both)
    with 3 show ?thesis
      using canonical_pos_div [of "- d" "- n"] by (simp add: Fraction_p0_pos)
  qed
qed

lemma Fraction_p0_cross: "num (Fraction_p0 n d) * d = n * den (Fraction_p0 n d)"
proof -
  have pos: "num (Fraction_p0 n d) * d = n * den (Fraction_p0 n d)" if "0 < d" for n d
  proof -
    obtain n' d' where n': "n = n' * gcd n d" and d': "d = d' * gcd n d"
      by (metis dvd_def gcd_dvd1 gcd_dvd2 mult.commute)
    have g: "gcd n d \<noteq> 0"
      using that by simp
    have "n div gcd n d = n'" "d div gcd n d = d'"
      using n' d' g by (metis nonzero_mult_div_cancel_right)+
    then have "(n div gcd n d) * d = n * (d div gcd n d)"
      using n' d' by (metis mult.assoc mult.commute)
    with that show ?thesis
      by (simp add: Fraction_p0_pos)
  qed
  consider "d = 0" | "0 < d" | "d < 0"
    by linarith
  then show ?thesis
  proof cases
    case 1
    then show ?thesis
      by (simp add: Fraction_p0_zero)
  next
    case 2
    then show ?thesis
      by (rule pos)
  next
    case 3
    then have "Fraction_p0 n d = Fraction_p0 (- n) (- d)"
      by (simp add: Fraction_p0_neg_both)
    moreover have "num (Fraction_p0 (- n) (- d)) * (- d) = (- n) * den (Fraction_p0 (- n) (- d))"
      using 3 by (intro pos) simp
    ultimately show ?thesis
      by simp
  qed
qed

lemma den_Fraction_p0: "d \<noteq> 0 \<Longrightarrow> 0 < den (Fraction_p0 n d)"
proof (cases "0 < d")
  case True
  then show ?thesis
    by (simp add: Fraction_p0_pos den_div_gcd_pos)
next
  case False
  assume "d \<noteq> 0"
  with False have "Fraction_p0 n d = Fraction_p0 (- n) (- d)" "0 < - d"
    by (simp_all add: Fraction_p0_neg_both)
  then show ?thesis
    using den_div_gcd_pos [of "- d" "- n"] by (simp add: Fraction_p0_pos)
qed

lemma den_Fraction_p0_zero: "den (Fraction_p0 n 0) = 0"
  by (simp add: Fraction_p0_zero)

lemma normalize_p0_canonical: "canonical f \<Longrightarrow> normalize_p0 f = f"
  by (auto simp: canonical_def normalize_p0_def gcd_Z_gcd abs_Z_abs Let_def)

lemma canonical_unique:
  assumes "canonical x" "canonical y" "0 < den x" "0 < den y"
    and "num x * den y = num y * den x"
  shows "x = (y :: fraction)"
proof -
  have cx: "coprime (num x) (den x)" and cy: "coprime (num y) (den y)"
    using assms by (simp_all add: canonical_iff)
  have "den x dvd num x * den y"
    using assms(5) by simp
  then have "den x dvd den y"
    using cx by (simp add: coprime_commute coprime_dvd_mult_right_iff)
  moreover have "den y dvd num y * den x"
    using assms(5) by (metis dvd_triv_right)
  then have "den y dvd den x"
    using cy by (simp add: coprime_commute coprime_dvd_mult_right_iff)
  ultimately have "den x = den y"
    using assms(3,4) by (simp add: zdvd_antisym_nonneg)
  with assms show ?thesis
    by simp
qed

subsection \<open>Comparison\<close>

text \<open>In the second variant exactly one of \<open>a < b\<close>, \<open>a == b\<close>, \<open>a > b\<close> is true, for all pairs.\<close>

lemma trichotomy_p0:
  "(lt_p0 a b \<and> \<not> eq_p0 a b \<and> \<not> gt_p0 a b)
   \<or> (\<not> lt_p0 a b \<and> eq_p0 a b \<and> \<not> gt_p0 a b)
   \<or> (\<not> lt_p0 a b \<and> \<not> eq_p0 a b \<and> gt_p0 a b)"
  by (auto simp: lt_p0_def eq_p0_def gt_p0_def gcd_Z_gcd gcd.commute Let_def)

text \<open>
  C2 (exactly one of \<open>a < b\<close>, \<open>a == b\<close>, \<open>a > b\<close> returns true), at the input where the
  variant of \<^verbatim>\<open>fractions.hpp\<close> breaks it: its \<^verbatim>\<open>operator>\<close> returns
  \<^verbatim>\<open>!(rhs < *this)\<close>, which is true for equal operands, so \<open>1/2 == 1/2\<close> and
  \<open>1/2 > 1/2\<close> are both true. The second variant returns \<^verbatim>\<open>rhs < *this\<close>.
\<close>

theorem hpp_greater_than_on_equal:
  "eq_hpp (Fraction_hpp 1 2) (Fraction_hpp 1 2) \<and> gt_hpp (Fraction_hpp 1 2) (Fraction_hpp 1 2)
   \<and> \<not> gt_p0 (Fraction_p0 1 2) (Fraction_p0 1 2)"
  by (simp add: eq_hpp_def gt_hpp_def lt_hpp_def gt_p0_def lt_p0_def)

subsection \<open>Reciprocal and division\<close>

text \<open>The second variant's \<open>reciprocal\<close>, for every pair.\<close>

lemma reciprocal_p0_spec:
  "reciprocal_p0 a =
     (if num a < 0 then \<lparr>num = - den a, den = - num a\<rparr> else \<lparr>num = den a, den = num a\<rparr>)
   \<and> 0 \<le> den (reciprocal_p0 a)
   \<and> (num a = 0 \<longrightarrow> den (reciprocal_p0 a) = 0)
   \<and> (den a = 0 \<longrightarrow> num (reciprocal_p0 a) = 0)"
  by (simp add: reciprocal_p0_def Let_def)

text \<open>
  C5 (after \<open>reciprocal\<close> the pair is swapped, and negated when the swap leaves
  \<open>den < 0\<close>, so that \<open>den \<ge> 0\<close> afterwards), at the input where the variant of
  \<^verbatim>\<open>fractions.hpp\<close> breaks it: its \<open>reciprocal\<close> is the swap alone, so the reciprocal
  of \<open>Fraction(-1, 2)\<close> is \<open>(2, -1)\<close>. The second variant returns \<open>(-2, 1)\<close>.
\<close>

theorem hpp_reciprocal_negative_denominator:
  "Fraction_hpp (- 1) 2 = \<lparr>num = - 1, den = 2\<rparr>
   \<and> reciprocal_hpp (Fraction_hpp (- 1) 2) = \<lparr>num = 2, den = - 1\<rparr>
   \<and> \<not> 0 \<le> den (reciprocal_hpp (Fraction_hpp (- 1) 2))
   \<and> reciprocal_p0 (Fraction_p0 (- 1) 2) = \<lparr>num = - 2, den = 1\<rparr>"
  by (simp add: Fraction_hpp_def normalize_hpp_def reciprocal_hpp_def gcd_Z_gcd
      Fraction_p0_def normalize_p0_def reciprocal_p0_def)

text \<open>Negating an argument of the constructor negates the numerator of the result.\<close>

lemma Fraction_p0_neg_num: "Fraction_p0 (- n) d = neg (Fraction_p0 n d)"
  by (simp add: Fraction_p0_def normalize_p0_def neg_def gcd_Z_gcd Let_def)

lemma Fraction_p0_neg_den: "d \<noteq> 0 \<Longrightarrow> Fraction_p0 n (- d) = neg (Fraction_p0 n d)"
  by (simp add: Fraction_p0_def normalize_p0_def neg_def gcd_Z_gcd Let_def)

lemma div_assign_p0_mul: "div_assign_p0 a b = mul_assign_p0 a (reciprocal_p0 b)"
proof (cases "num b < 0")
  case True
  then have r: "reciprocal_p0 b = \<lparr>num = - den b, den = - num b\<rparr>"
    by (simp add: reciprocal_p0_def Let_def)
  from True have "Fraction_p0 (num a) (- num b) = neg (Fraction_p0 (num a) (num b))"
    by (simp add: Fraction_p0_neg_den)
  then show ?thesis
    by (simp add: div_assign_p0_def mul_assign_p0_def r Fraction_p0_neg_num neg_def Let_def)
next
  case False
  then have "reciprocal_p0 b = \<lparr>num = den b, den = num b\<rparr>"
    by (simp add: reciprocal_p0_def Let_def)
  then show ?thesis
    by (simp add: div_assign_p0_def mul_assign_p0_def)
qed

text \<open>
  C6: for all fractions \<open>a\<close> and \<open>b\<close>, \<open>a / b\<close> is the same fraction as \<open>a * r\<close>, where
  \<open>r\<close> is \<open>b\<close> after \<open>reciprocal()\<close>; in both variants.
\<close>

theorem division_is_reciprocal_multiplication:
  "div_p0 a b = mul_p0 a (reciprocal_p0 b) \<and> div_hpp a b = mul_hpp a (reciprocal_hpp b)"
  by (simp add: div_p0_def mul_p0_def div_hpp_def div_assign_p0_mul)

subsection \<open>The scalar compound operators of fractions.hpp\<close>

text \<open>
  C10: in the variant of \<^verbatim>\<open>fractions.hpp\<close>, \<^verbatim>\<open>operator*=(const Z& i)\<close> divides by
  \<open>gcd(i, den)\<close> and \<^verbatim>\<open>operator/=(const Z& i)\<close> by \<open>gcd(num, i)\<close>. The divisor is
  zero, and the operator divides by zero, exactly when both arguments of the gcd are
  zero; otherwise the operator returns the pair reduced by that divisor.
\<close>

theorem scalar_divisor_nonzero:
  "(gcd_Z i (den a) = 0 \<longleftrightarrow> i = 0 \<and> den a = 0)
   \<and> (mul_assign_int_hpp a i = None \<longleftrightarrow> i = 0 \<and> den a = 0)
   \<and> (\<not> (i = 0 \<and> den a = 0) \<longrightarrow>
        mul_assign_int_hpp a i =
          Some \<lparr>num = num a * (i sdiv gcd_Z i (den a)), den = den a sdiv gcd_Z i (den a)\<rparr>)
   \<and> (gcd_Z (num a) i = 0 \<longleftrightarrow> num a = 0 \<and> i = 0)
   \<and> (div_assign_int_hpp a i = None \<longleftrightarrow> num a = 0 \<and> i = 0)
   \<and> (\<not> (num a = 0 \<and> i = 0) \<longrightarrow>
        div_assign_int_hpp a i =
          Some \<lparr>num = num a sdiv gcd_Z (num a) i, den = den a * (i sdiv gcd_Z (num a) i)\<rparr>)"
  by (simp add: mul_assign_int_hpp_def div_assign_int_hpp_def gcd_Z_gcd Let_def)

theorem scalar_divisor_nonzero_witness:
  "\<not> ((6 :: int) = 0 \<and> den \<lparr>num = 9, den = 10\<rparr> = 0)
   \<and> mul_assign_int_hpp \<lparr>num = 9, den = 10\<rparr> 6 = Some \<lparr>num = 27, den = 5\<rparr>
   \<and> \<not> (num \<lparr>num = 9, den = 10\<rparr> = 0 \<and> (6 :: int) = 0)
   \<and> div_assign_int_hpp \<lparr>num = 9, den = 10\<rparr> 6 = Some \<lparr>num = 3, den = 20\<rparr>"
proof -
  have "gcd (6 :: int) 10 = 2" "gcd (9 :: int) 6 = 3"
    by code_simp+
  then show ?thesis
    using scalar_divisor_nonzero [of 6 "\<lparr>num = 9, den = 10\<rparr>"] by (simp add: gcd_Z_gcd)
qed

subsection \<open>Multiplication\<close>

lemma canonical_zero_den: "den f = 0 \<Longrightarrow> canonical f \<longleftrightarrow> \<bar>num f\<bar> \<le> 1"
  by (auto simp: canonical_iff)

lemma num_Fraction_p0_unit:
  assumes "\<bar>n\<bar> \<le> 1" "0 \<le> d"
  shows "num (Fraction_p0 n d) = n"
proof (cases "d = 0")
  case True
  with assms show ?thesis
    by (auto simp: Fraction_p0_zero sgn_if)
next
  case False
  with assms have d: "0 < d"
    by simp
  consider "n = 0" | "n = 1" | "n = - 1"
    using assms by linarith
  then show ?thesis
    using d by cases (simp_all add: Fraction_p0_pos)
qed

lemma num_Fraction_p0_dvd: "0 < d \<Longrightarrow> num (Fraction_p0 n d) dvd n"
  by (simp add: Fraction_p0_pos div_dvd_iff_mult)

lemma den_Fraction_p0_dvd: "0 < d \<Longrightarrow> den (Fraction_p0 n d) dvd d"
  by (simp add: Fraction_p0_pos div_dvd_iff_mult)

lemma mul_p0_finite:
  assumes "canonical a" "canonical b" "0 < den a" "0 < den b"
  shows "canonical (mul_p0 a b)" and "0 < den (mul_p0 a b)"
proof -
  let ?f1 = "Fraction_p0 (num a) (den b)" and ?f2 = "Fraction_p0 (num b) (den a)"
  have ca: "coprime (num a) (den a)" and cb: "coprime (num b) (den b)"
    using assms by (simp_all add: canonical_iff)
  have d1: "0 < den ?f1" and d2: "0 < den ?f2"
    using assms by (simp_all add: den_Fraction_p0)
  have c1: "coprime (num ?f1) (den ?f1)" and c2: "coprime (num ?f2) (den ?f2)"
    using canonical_Fraction_p0 [of "num a" "den b"] canonical_Fraction_p0 [of "num b" "den a"]
      d1 d2 by (simp_all add: canonical_iff)
  have c12: "coprime (num ?f1) (den ?f2)"
    using assms ca by (blast intro: coprime_divisors num_Fraction_p0_dvd den_Fraction_p0_dvd)
  have c21: "coprime (num ?f2) (den ?f1)"
    using assms cb by (blast intro: coprime_divisors num_Fraction_p0_dvd den_Fraction_p0_dvd)
  show "0 < den (mul_p0 a b)"
    using d1 d2 by (simp add: mul_p0_def mul_assign_p0_def Let_def)
  then show "canonical (mul_p0 a b)"
    using c1 c2 c12 c21 by (simp add: canonical_iff mul_p0_def mul_assign_p0_def Let_def)
qed

lemma mul_p0_cross:
  "num (mul_p0 a b) * (den a * den b) = (num a * num b) * den (mul_p0 a b)"
proof -
  let ?f1 = "Fraction_p0 (num a) (den b)" and ?f2 = "Fraction_p0 (num b) (den a)"
  have "num (mul_p0 a b) * (den a * den b) = (num ?f1 * den b) * (num ?f2 * den a)"
    by (simp add: mul_p0_def mul_assign_p0_def Let_def)
  also have "\<dots> = (num a * den ?f1) * (num b * den ?f2)"
    by (simp only: Fraction_p0_cross)
  also have "\<dots> = (num a * num b) * den (mul_p0 a b)"
    by (simp add: mul_p0_def mul_assign_p0_def Let_def)
  finally show ?thesis .
qed

lemma mul_p0_infinite:
  assumes "canonical a" "canonical b" "den a = 0 \<or> den b = 0"
  shows "mul_p0 a b = \<lparr>num = sgn (num a * num b), den = 0\<rparr>"
proof -
  have da: "0 \<le> den a" and db: "0 \<le> den b"
    using assms by (simp_all add: canonical_def)
  from assms(3) show ?thesis
  proof
    assume z: "den a = 0"
    with assms have "\<bar>num a\<bar> \<le> 1"
      by (simp add: canonical_zero_den)
    then have "num (Fraction_p0 (num a) (den b)) = num a"
      using db by (simp add: num_Fraction_p0_unit)
    moreover from \<open>\<bar>num a\<bar> \<le> 1\<close> have "sgn (num a) = num a"
      by (auto simp: sgn_if)
    ultimately show ?thesis
      using z by (simp add: mul_p0_def mul_assign_p0_def Fraction_p0_zero sgn_mult Let_def)
  next
    assume z: "den b = 0"
    with assms have "\<bar>num b\<bar> \<le> 1"
      by (simp add: canonical_zero_den)
    then have "num (Fraction_p0 (num b) (den a)) = num b"
      using da by (simp add: num_Fraction_p0_unit)
    moreover from \<open>\<bar>num b\<bar> \<le> 1\<close> have "sgn (num b) = num b"
      by (auto simp: sgn_if)
    ultimately show ?thesis
      using z by (simp add: mul_p0_def mul_assign_p0_def Fraction_p0_zero sgn_mult Let_def)
  qed
qed

lemma canonical_mul_p0:
  assumes "canonical a" "canonical b"
  shows "canonical (mul_p0 a b)"
proof (cases "den a = 0 \<or> den b = 0")
  case True
  with assms have "mul_p0 a b = \<lparr>num = sgn (num a * num b), den = 0\<rparr>"
    by (rule mul_p0_infinite)
  then show ?thesis
    by (simp add: canonical_zero_den sgn_if)
next
  case False
  moreover have "0 \<le> den a" "0 \<le> den b"
    using assms by (simp_all add: canonical_def)
  ultimately show ?thesis
    using assms by (simp add: mul_p0_finite)
qed

text \<open>
  The multiplication of the second variant: for canonical \<open>a\<close> and \<open>b\<close> it reduces
  \<open>a.num\<close> against \<open>b.den\<close> and \<open>b.num\<close> against \<open>a.den\<close> by their gcds and multiplies
  the reduced parts; the result is canonical and is the exact product:
  \<open>num * (a.den * b.den) = (a.num * b.num) * den\<close>, with a positive denominator when both
  denominators are non-zero and the sign of \<open>a.num * b.num\<close> over zero otherwise.
\<close>

lemma mul_p0_canonical_exact:
  assumes "canonical a" "canonical b"
  shows "canonical (mul_p0 a b)
    \<and> num (mul_p0 a b) * (den a * den b) = (num a * num b) * den (mul_p0 a b)
    \<and> (den a \<noteq> 0 \<and> den b \<noteq> 0 \<longrightarrow>
         0 < den (mul_p0 a b)
         \<and> gcd_Z (num a) (den b) \<noteq> 0 \<and> gcd_Z (num b) (den a) \<noteq> 0
         \<and> mul_p0 a b =
             \<lparr>num = (num a sdiv gcd_Z (num a) (den b)) * (num b sdiv gcd_Z (num b) (den a)),
              den = (den b sdiv gcd_Z (num a) (den b)) * (den a sdiv gcd_Z (num b) (den a))\<rparr>)
    \<and> (den a = 0 \<or> den b = 0 \<longrightarrow> mul_p0 a b = \<lparr>num = sgn (num a * num b), den = 0\<rparr>)
    \<and> mul_assign_p0 a b = mul_p0 a b"
proof -
  have nonneg: "0 \<le> den a" "0 \<le> den b"
    using assms by (simp_all add: canonical_def)
  have fin: "0 < den (mul_p0 a b)
      \<and> gcd_Z (num a) (den b) \<noteq> 0 \<and> gcd_Z (num b) (den a) \<noteq> 0
      \<and> mul_p0 a b =
          \<lparr>num = (num a sdiv gcd_Z (num a) (den b)) * (num b sdiv gcd_Z (num b) (den a)),
           den = (den b sdiv gcd_Z (num a) (den b)) * (den a sdiv gcd_Z (num b) (den a))\<rparr>"
    if "den a \<noteq> 0" "den b \<noteq> 0"
  proof -
    from that nonneg have pos: "0 < den a" "0 < den b"
      by simp_all
    then have "mul_p0 a b =
        \<lparr>num = (num a sdiv gcd_Z (num a) (den b)) * (num b sdiv gcd_Z (num b) (den a)),
         den = (den b sdiv gcd_Z (num a) (den b)) * (den a sdiv gcd_Z (num b) (den a))\<rparr>"
      by (simp add: mul_p0_def mul_assign_p0_def Fraction_p0_pos gcd_Z_gcd sdiv_dvd_div Let_def)
    moreover have "0 < den (mul_p0 a b)"
      using pos assms by (simp add: mul_p0_finite)
    moreover have "gcd_Z (num a) (den b) \<noteq> 0 \<and> gcd_Z (num b) (den a) \<noteq> 0"
      using that by (simp add: gcd_Z_gcd)
    ultimately show ?thesis
      by blast
  qed
  have "canonical (mul_p0 a b)"
  proof (cases "den a = 0 \<or> den b = 0")
    case True
    with assms have "mul_p0 a b = \<lparr>num = sgn (num a * num b), den = 0\<rparr>"
      by (rule mul_p0_infinite)
    then show ?thesis
      by (simp add: canonical_zero_den sgn_if)
  next
    case False
    with nonneg assms show ?thesis
      by (simp add: mul_p0_finite)
  qed
  moreover have "den a = 0 \<or> den b = 0 \<longrightarrow> mul_p0 a b = \<lparr>num = sgn (num a * num b), den = 0\<rparr>"
    using assms by (simp add: mul_p0_infinite)
  moreover have "mul_assign_p0 a b = mul_p0 a b"
    by (simp add: mul_p0_def)
  ultimately show ?thesis
    using fin mul_p0_cross [of a b] by blast
qed

lemma mul_p0_canonical_exact_example:
  "canonical \<lparr>num = 3, den = 4\<rparr> \<and> canonical \<lparr>num = 2, den = 9\<rparr>
   \<and> mul_p0 \<lparr>num = 3, den = 4\<rparr> \<lparr>num = 2, den = 9\<rparr> = \<lparr>num = 1, den = 6\<rparr>
   \<and> canonical \<lparr>num = 1, den = 6\<rparr>"
proof -
  have g: "gcd (3 :: int) 4 = 1" "gcd (2 :: int) 9 = 1" "gcd (3 :: int) 9 = 3" "gcd (2 :: int) 4 = 2"
    by code_simp+
  then have c: "canonical \<lparr>num = 3, den = 4\<rparr>" "canonical \<lparr>num = 2, den = 9\<rparr>"
    by (simp_all add: canonical_def gcd_Z_gcd abs_Z_abs)
  let ?a = "\<lparr>num = 3, den = 4\<rparr>" and ?b = "\<lparr>num = 2, den = 9\<rparr>"
  note m = mul_p0_canonical_exact [OF c]
  from m have "mul_p0 ?a ?b = \<lparr>num = 1, den = 6\<rparr>"
    using g by (simp add: gcd_Z_gcd)
  moreover from m have "canonical (mul_p0 ?a ?b)"
    by blast
  ultimately show ?thesis
    using c by simp
qed

text \<open>
  C4 (for canonical \<open>a\<close> and \<open>b\<close>, \<open>a * b\<close> first reduces \<open>a.num\<close> against \<open>b.den\<close> and
  \<open>b.num\<close> against \<open>a.den\<close> before multiplying, and returns the exact product in
  canonical form), at an input where the variant of \<^verbatim>\<open>fractions.hpp\<close> breaks it. Its
  \<^verbatim>\<open>operator*\<close>, marked \<^verbatim>\<open>@todo gcd first\<close>, multiplies first and normalises afterwards.
  With \<open>Z\<close> a 32-bit unsigned type, \<open>a = 2147483648/3\<close> and \<open>b = 1/2147483648\<close> are
  canonical and their product is 1/3. The denominator \<open>3 * 2147483648\<close> wraps around to
  \<open>2147483648\<close>, and \<^verbatim>\<open>fractions.hpp\<close> returns 1/1. The second variant reduces
  \<open>2147483648\<close> against \<open>2147483648\<close> before it multiplies and returns 1/3.
\<close>

theorem hpp_multiplication_not_reduced_first:
  "Fraction_hpp_u32 2147483648 3 = \<lparr>num_u32 = 2147483648, den_u32 = 3\<rparr>
   \<and> Fraction_hpp_u32 1 2147483648 = \<lparr>num_u32 = 1, den_u32 = 2147483648\<rparr>
   \<and> mul_hpp_u32 (Fraction_hpp_u32 2147483648 3) (Fraction_hpp_u32 1 2147483648)
       = \<lparr>num_u32 = 1, den_u32 = 1\<rparr>
   \<and> mul_p0_u32 (Fraction_p0_u32 2147483648 3) (Fraction_p0_u32 1 2147483648)
       = \<lparr>num_u32 = 1, den_u32 = 3\<rparr>
   \<and> mul_p0 (Fraction_p0 2147483648 3) (Fraction_p0 1 2147483648) = \<lparr>num = 1, den = 3\<rparr>"
  by code_simp

subsection \<open>Addition and equality in the second variant\<close>

lemma add_args_p0_diff:
  assumes "den a \<noteq> den b"
  shows "gcd_Z (den a) (den b) \<noteq> 0"
    and "add_args_p0 a b =
      ((den b sdiv gcd_Z (den a) (den b)) * num a + (den a sdiv gcd_Z (den a) (den b)) * num b,
       den a * (den b sdiv gcd_Z (den a) (den b)))"
proof -
  show "gcd_Z (den a) (den b) \<noteq> 0"
    using assms by (auto simp: gcd_Z_gcd)
  then show "add_args_p0 a b =
      ((den b sdiv gcd_Z (den a) (den b)) * num a + (den a sdiv gcd_Z (den a) (den b)) * num b,
       den a * (den b sdiv gcd_Z (den a) (den b)))"
    using assms by (simp add: add_args_p0_def Let_def)
qed





lemma canonical_add_p0: "canonical (add_p0 a b)"
  by (cases "add_args_p0 a b") (simp add: add_p0_def canonical_Fraction_p0)

lemma add_assign_p0_add: "add_assign_p0 a b = add_p0 a b"
proof (cases "den a = den b")
  case True
  then show ?thesis
    by (cases a) (simp add: add_assign_p0_def add_p0_def add_args_p0_def Fraction_p0_def)
next
  case False
  then show ?thesis
    using add_args_p0_diff [OF False]
    by (simp add: add_assign_p0_def add_p0_def Fraction_p0_def Let_def mult.commute)
qed


subsection \<open>The round trip of addition and subtraction\<close>





lemma canonical_neg: "canonical a \<Longrightarrow> canonical (neg a)"
  by (simp add: canonical_def neg_def gcd_Z_gcd abs_Z_abs)







subsection \<open>The addition algorithm\<close>






text \<open>
  The \<^verbatim>\<open>operator+\<close> of \<^verbatim>\<open>fractions.hpp\<close> has no gcd factoring: for different
  denominators it hands the raw product \<open>a.den * b.den\<close> to the constructor. With \<open>Z\<close> a
  32-bit unsigned type and \<open>1/65536 + 1/131072\<close> the raw product wraps around to 0, and
  the result is \<open>(1, 0)\<close>; the second variant hands over \<open>65536 * 2\<close> and returns
  \<open>3/131072\<close>.
\<close>

lemma hpp_addition_not_factored:
  "add_hpp_u32 (Fraction_hpp_u32 1 65536) (Fraction_hpp_u32 1 131072)
     = \<lparr>num_u32 = 1, den_u32 = 0\<rparr>
   \<and> add_p0_u32 (Fraction_p0_u32 1 65536) (Fraction_p0_u32 1 131072)
     = \<lparr>num_u32 = 3, den_u32 = 131072\<rparr>"
  by code_simp

subsection \<open>The canonical form of constructed and derived fractions\<close>

lemma canonical_reciprocal_p0:
  assumes "canonical a"
  shows "canonical (reciprocal_p0 a)"
proof (cases "den a = 0")
  case True
  with assms show ?thesis
    by (auto simp: canonical_iff reciprocal_p0_def)
next
  case False
  with assms have d: "0 < den a" and c: "coprime (num a) (den a)"
    by (auto simp: canonical_iff)
  show ?thesis
  proof (cases "num a = 0")
    case True
    with c have "\<bar>den a\<bar> = 1"
      by simp
    with d True show ?thesis
      by (simp add: canonical_iff reciprocal_p0_def)
  next
    case False
    with d c show ?thesis
      by (auto simp: canonical_iff reciprocal_p0_def Let_def coprime_commute)
  qed
qed

lemma normalize_p0_Fraction: "normalize_p0 f = Fraction_p0 (num f) (den f)"
  by (cases f) (simp add: Fraction_p0_def)

lemma canonical_normalize_p0: "canonical (normalize_p0 f)"
  by (simp add: normalize_p0_Fraction canonical_Fraction_p0)

lemma canonical_add_assign_int_p0:
  assumes "canonical a"
  shows "canonical (add_assign_int_p0 a i)"
  using assms
  by (simp add: add_assign_int_p0_def canonical_normalize_p0)
     (simp add: canonical_iff)

lemma canonical_mul_assign_int_p0:
  assumes "canonical a"
  shows "canonical (mul_assign_int_p0 a i)"
proof (cases "den a = 0")
  case True
  with assms have "\<bar>num a\<bar> \<le> 1"
    by (simp add: canonical_zero_den)
  then have "\<bar>num a * sgn i\<bar> \<le> 1"
    by (auto simp: sgn_if)
  with True show ?thesis
    by (simp add: mul_assign_int_p0_def Fraction_p0_zero canonical_zero_den)
next
  case False
  with assms have d: "0 < den a" and c: "coprime (num a) (den a)"
    by (auto simp: canonical_iff)
  let ?f = "Fraction_p0 i (den a)"
  have df: "0 < den ?f"
    using d by (simp add: den_Fraction_p0)
  then have "coprime (num ?f) (den ?f)"
    using canonical_Fraction_p0 [of i "den a"] by (simp add: canonical_iff)
  moreover have "coprime (num a) (den ?f)"
    using c d by (blast intro: coprime_divisors den_Fraction_p0_dvd dvd_refl)
  ultimately show ?thesis
    using df by (simp add: mul_assign_int_p0_def canonical_iff Let_def)
qed


lemma num_Fraction_p0_dvd_nonzero:
  assumes "d \<noteq> 0"
  shows "num (Fraction_p0 n d) dvd n"
proof (cases "0 < d")
  case True
  then show ?thesis
    by (rule num_Fraction_p0_dvd)
next
  case False
  with assms have "Fraction_p0 n d = Fraction_p0 (- n) (- d)" "0 < - d"
    by (simp_all add: Fraction_p0_neg_both)
  then show ?thesis
    using num_Fraction_p0_dvd [of "- d" "- n"] by simp
qed

lemma canonical_div_assign_int_p0:
  assumes "canonical a"
  shows "canonical (div_assign_int_p0 a i)"
proof (cases "i = 0")
  case True
  then show ?thesis
    by (simp add: div_assign_int_p0_def Fraction_p0_zero canonical_zero_den sgn_if)
next
  case False
  let ?f = "Fraction_p0 (num a) i"
  have df: "0 < den ?f"
    using False by (rule den_Fraction_p0)
  then have cf: "coprime (num ?f) (den ?f)"
    using canonical_Fraction_p0 [of "num a" i] by (simp add: canonical_iff)
  have dvd: "num ?f dvd num a"
    using False by (rule num_Fraction_p0_dvd_nonzero)
  show ?thesis
  proof (cases "den a = 0")
    case True
    with assms consider "num a = 0" | "\<bar>num a\<bar> = 1"
      by (auto simp: canonical_iff)
    then have "\<bar>num ?f\<bar> \<le> 1"
    proof cases
      case 1
      then have "num ?f * i = 0"
        using Fraction_p0_cross [of "num a" i] by simp
      with False show ?thesis
        by simp
    next
      case 2
      with dvd have "\<bar>num ?f\<bar> = 1"
        by (metis abs_zmult_eq_1 dvd_def)
      then show ?thesis
        by simp
    qed
    with True show ?thesis
      by (simp add: div_assign_int_p0_def canonical_zero_den Let_def)
  next
    case False
    with assms have d: "0 < den a" and c: "coprime (num a) (den a)"
      by (auto simp: canonical_iff)
    have "coprime (num ?f) (den a)"
      using c dvd by (blast intro: coprime_divisors dvd_refl)
    with cf d df show ?thesis
      by (simp add: div_assign_int_p0_def canonical_iff Let_def)
  qed
qed

lemma canonical_Fraction1: "canonical (Fraction1 n)"
  by (simp add: Fraction1_def canonical_iff)

lemma canonical_Fraction0: "canonical Fraction0"
  by (simp add: Fraction0_def canonical_iff)

text \<open>
  Every fraction the second variant constructs or derives is canonical; with a non-zero
  denominator, the denominator is positive and coprime to the numerator.
\<close>

lemma reachable_p0_canonical: "reachable_p0 f \<Longrightarrow> canonical f"
proof (induction rule: reachable_p0.induct)
  case (div a b)
  then show ?case
    by (simp add: div_p0_def div_assign_p0_mul canonical_mul_p0 canonical_reciprocal_p0
        flip: mul_p0_def)
next
  case (div_assign a b)
  then show ?case
    by (simp add: div_assign_p0_mul canonical_mul_p0 canonical_reciprocal_p0 flip: mul_p0_def)
next
  case (mul_assign a b)
  then show ?case
    by (simp add: canonical_mul_p0 flip: mul_p0_def)
qed (simp_all add: canonical_Fraction_p0 canonical_Fraction1 canonical_Fraction0 canonical_neg
    canonical_reciprocal_p0 canonical_add_p0 sub_p0_def add_assign_p0_add sub_assign_p0_def
    canonical_mul_p0 add_int_p0_def sub_int_p0_def int_sub_p0_def sub_assign_int_p0_def
    canonical_add_assign_int_p0 canonical_mul_assign_int_p0 canonical_div_assign_int_p0
    int_div_p0_def)

lemma canonical_form_p0:
  assumes "reachable_p0 f" "den f \<noteq> 0"
  shows "0 < den f \<and> gcd_Z (abs_Z (num f)) (den f) = 1"
  using reachable_p0_canonical [OF assms(1)] assms(2) by (auto simp: canonical_def gcd_Z_gcd)

text \<open>
  C1 (the canonical form: a constructed or derived fraction with \<open>den \<noteq> 0\<close> has
  \<open>den > 0\<close> and \<open>gcd(|num|, den) = 1\<close>), at the input where the variant of
  \<^verbatim>\<open>fractions.hpp\<close> leaves it: \<open>normalize\<close> returns before it looks at the sign when
  the gcd is 1, so \<open>Fraction(1, -2)\<close> keeps the denominator -2. The second variant
  returns -1/2, and keeps the canonical form throughout (\<open>canonical_form_p0\<close> above).
\<close>

theorem hpp_constructor_negative_denominator:
  "Fraction_hpp 1 (- 2) = \<lparr>num = 1, den = - 2\<rparr>
   \<and> den (Fraction_hpp 1 (- 2)) \<noteq> 0 \<and> \<not> 0 < den (Fraction_hpp 1 (- 2))
   \<and> Fraction_p0 1 (- 2) = \<lparr>num = - 1, den = 2\<rparr>"
  by (simp add: Fraction_hpp_def normalize_hpp_def Fraction_p0_def normalize_p0_def gcd_Z_gcd)

end
